theory Spec2Isabelle
  imports Complex_Main "HOL-Library.Sublist"
begin

section \<open>Python values\<close>

text \<open>
  The bridge (\<^verbatim>\<open>skills/claude-code-bridge/bridge.py\<close>) handles two kinds of untyped data:
  the tool input handed over by the agent SDK and the content of \<^verbatim>\<open>answer.json\<close>, written
  by the supervising process. Both are JSON-shaped Python values. Numbers are restricted to
  integers (floats play no part in the bridge). A dictionary is an association list in
  insertion order, as Python keeps it; keys are values, since the bridge builds
  dictionaries keyed by whatever \<^verbatim>\<open>q["question"]\<close> holds.
\<close>

datatype pyval =
    PNone
  | PBool bool
  | PInt int
  | PStr string
  | PList "pyval list"
  | PDict "(pyval \<times> pyval) list"

text \<open>The exceptions the bridge's own expressions can raise.\<close>

datatype py_error =
    KeyError pyval
  | IndexError
  | TypeError
  | AttributeError
  | JSONDecodeError

text \<open>Truth value testing (\<^verbatim>\<open>if x:\<close>, \<^verbatim>\<open>x and y\<close>).\<close>

fun truthy :: "pyval \<Rightarrow> bool" where
  "truthy PNone = False"
| "truthy (PBool b) = b"
| "truthy (PInt n) = (n \<noteq> 0)"
| "truthy (PStr s) = (s \<noteq> [])"
| "truthy (PList xs) = (xs \<noteq> [])"
| "truthy (PDict d) = (d \<noteq> [])"

text \<open>Lists and dictionaries are unhashable: using one as a dictionary key raises TypeError.\<close>

fun hashable :: "pyval \<Rightarrow> bool" where
  "hashable (PList xs) = False"
| "hashable (PDict d) = False"
| "hashable v = True"

text \<open>
  Python's \<^verbatim>\<open>==\<close> on hashable values, which decides when two keys are the same key:
  \<^verbatim>\<open>True == 1\<close> and \<^verbatim>\<open>False == 0\<close>, otherwise values of different types differ.
\<close>

fun py_key_eq :: "pyval \<Rightarrow> pyval \<Rightarrow> bool" where
  "py_key_eq PNone PNone = True"
| "py_key_eq (PBool a) (PBool b) = (a = b)"
| "py_key_eq (PInt a) (PInt b) = (a = b)"
| "py_key_eq (PStr a) (PStr b) = (a = b)"
| "py_key_eq (PBool a) (PInt b) = (b = (if a then 1 else 0))"
| "py_key_eq (PInt a) (PBool b) = (a = (if b then 1 else 0))"
| "py_key_eq u v = False"

fun dict_lookup :: "(pyval \<times> pyval) list \<Rightarrow> pyval \<Rightarrow> pyval option" where
  "dict_lookup [] k = None"
| "dict_lookup ((k', v) # d) k = (if py_key_eq k' k then Some v else dict_lookup d k)"

text \<open>
  \<^verbatim>\<open>d[k] = v\<close> on a hashable key: an existing key keeps its place and gets the new
  value, a new key goes to the end.
\<close>

fun dict_store :: "(pyval \<times> pyval) list \<Rightarrow> pyval \<Rightarrow> pyval \<Rightarrow> (pyval \<times> pyval) list" where
  "dict_store [] k v = [(k, v)]"
| "dict_store ((k', v') # d) k v =
     (if py_key_eq k' k then (k', v) # d else (k', v') # dict_store d k v)"

definition py_setitem ::
  "(pyval \<times> pyval) list \<Rightarrow> pyval \<Rightarrow> pyval \<Rightarrow> py_error + (pyval \<times> pyval) list" where
  "py_setitem d k v = (if hashable k then Inr (dict_store d k v) else Inl TypeError)"

text \<open>\<^verbatim>\<open>x.get(key, default)\<close>: only a dictionary has the method.\<close>

fun py_get :: "pyval \<Rightarrow> pyval \<Rightarrow> pyval \<Rightarrow> py_error + pyval" where
  "py_get (PDict d) k dflt = Inr (case dict_lookup d k of None \<Rightarrow> dflt | Some v \<Rightarrow> v)"
| "py_get x k dflt = Inl AttributeError"

text \<open>\<^verbatim>\<open>x[key]\<close> with a string key.\<close>

fun py_item :: "pyval \<Rightarrow> string \<Rightarrow> py_error + pyval" where
  "py_item (PDict d) k =
     (case dict_lookup d (PStr k) of None \<Rightarrow> Inl (KeyError (PStr k)) | Some v \<Rightarrow> Inr v)"
| "py_item x k = Inl TypeError"

text \<open>\<^verbatim>\<open>x[0]\<close>.\<close>

fun py_first :: "pyval \<Rightarrow> py_error + pyval" where
  "py_first (PList []) = Inl IndexError"
| "py_first (PList (x # xs)) = Inr x"
| "py_first (PStr []) = Inl IndexError"
| "py_first (PStr (c # s)) = Inr (PStr [c])"
| "py_first (PDict d) =
     (case dict_lookup d (PInt 0) of None \<Rightarrow> Inl (KeyError (PInt 0)) | Some v \<Rightarrow> Inr v)"
| "py_first x = Inl TypeError"

text \<open>
  \<^verbatim>\<open>key in x\<close> with a string key: key membership in a dictionary, element membership in
  a list, substring test in a string, TypeError elsewhere.
\<close>

fun py_contains :: "string \<Rightarrow> pyval \<Rightarrow> py_error + bool" where
  "py_contains k (PDict d) = Inr (dict_lookup d (PStr k) \<noteq> None)"
| "py_contains k (PList xs) = Inr (PStr k \<in> set xs)"
| "py_contains k (PStr s) = Inr (sublist k s)"
| "py_contains k x = Inl TypeError"

text \<open>\<^verbatim>\<open>for q in x\<close>: the elements the loop visits.\<close>

fun py_iter :: "pyval \<Rightarrow> py_error + pyval list" where
  "py_iter (PList xs) = Inr xs"
| "py_iter (PStr s) = Inr (map (\<lambda>c. PStr [c]) s)"
| "py_iter (PDict d) = Inr (map fst d)"
| "py_iter x = Inl TypeError"

section \<open>The task directory\<close>

text \<open>
  A file of the task directory that is meant to hold JSON is in one of three conditions:
  \<open>Json v\<close>, the complete text of a document that \<^verbatim>\<open>json.loads\<close> reads as \<open>v\<close> (what
  \<^verbatim>\<open>json.dumps(v, indent=2, default=str)\<close> produces for a value with string keys);
  \<open>Truncated v\<close>, a file opened for writing that text and holding only a proper prefix of
  it so far; \<open>Malformed s\<close>, any other text \<open>s\<close> that \<^verbatim>\<open>json.loads\<close> rejects.
  \<^verbatim>\<open>output.log\<close> holds plain text and \<^verbatim>\<open>bridge.pid\<close> the decimal process id.
\<close>

datatype content = Json pyval | Truncated pyval | Malformed string

record task_dir =
  files :: "string \<Rightarrow> content option"
  output_log :: "string option"
  bridge_pid :: "int option"

text \<open>
  A run is the directory as it is now, together with the states it went through before,
  newest first. Every file operation of the bridge, and every write of the supervising
  process, is one \<open>step\<close>.
\<close>

type_synonym run = "task_dir \<times> task_dir list"

definition start :: "task_dir \<Rightarrow> run" where
  "start s = (s, [])"

definition now :: "run \<Rightarrow> task_dir" where
  "now r = fst r"

definition step :: "(task_dir \<Rightarrow> task_dir) \<Rightarrow> run \<Rightarrow> run" where
  "step f r = (f (fst r), fst r # snd r)"

text \<open>The states of a run in the order in which they occurred.\<close>

definition trace :: "run \<Rightarrow> task_dir list" where
  "trace r = rev (snd r) @ [fst r]"

definition exists_file :: "task_dir \<Rightarrow> string \<Rightarrow> bool" where
  "exists_file s p = (files s p \<noteq> None)"

definition put_file :: "string \<Rightarrow> content \<Rightarrow> task_dir \<Rightarrow> task_dir" where
  "put_file p c s = s\<lparr>files := (files s)(p \<mapsto> c)\<rparr>"

text \<open>\<^verbatim>\<open>Path.unlink(missing_ok=True)\<close>; the one call without the flag is guarded by \<^verbatim>\<open>exists()\<close>.\<close>

definition unlink :: "string \<Rightarrow> task_dir \<Rightarrow> task_dir" where
  "unlink p s = s\<lparr>files := (files s)(p := None)\<rparr>"

text \<open>
  \<^verbatim>\<open>Path.rename\<close>: the source's content replaces the target in one step. (Python raises
  FileNotFoundError for a missing source; the bridge renames only a file it has just written.)
\<close>

definition rename :: "string \<Rightarrow> string \<Rightarrow> task_dir \<Rightarrow> task_dir" where
  "rename src dst s = s\<lparr>files := ((files s)(src := None))(dst := files s src)\<rparr>"

text \<open>
  \<^verbatim>\<open>PurePath.suffix\<close> and \<^verbatim>\<open>PurePath.with_suffix\<close> on a file name: the suffix starts at the
  last dot, unless that dot is the first or the last character of the name.
\<close>

definition suffix_of :: "string \<Rightarrow> string" where
  "suffix_of name =
     (let ext = rev (takeWhile (\<lambda>c. c \<noteq> CHR ''.'') (rev name));
          stem = rev (dropWhile (\<lambda>c. c \<noteq> CHR ''.'') (rev name))
      in if length stem > 1 \<and> ext \<noteq> [] then CHR ''.'' # ext else [])"

definition with_suffix :: "string \<Rightarrow> string \<Rightarrow> string" where
  "with_suffix name sfx =
     (if suffix_of name = [] then name @ sfx
      else take (length name - length (suffix_of name)) name @ sfx)"

text \<open>
  \<^verbatim>\<open>write_json_atomic\<close> (lines 44-48). \<^verbatim>\<open>write_text\<close> opens the temporary file, which from
  then on holds a prefix of the text, and completes it; the rename moves it into place.
\<close>

definition write_json_atomic :: "string \<Rightarrow> pyval \<Rightarrow> run \<Rightarrow> run" where
  "write_json_atomic filepath data r =
     (let tmp = with_suffix filepath ''.tmp'';
          r1 = step (put_file tmp (Truncated data)) r;
          r2 = step (put_file tmp (Json data)) r1
      in step (rename tmp filepath) r2)"

text \<open>\<^verbatim>\<open>read_json\<close> (lines 51-54): None for a missing file, the decode error for a bad one.\<close>

definition read_json :: "task_dir \<Rightarrow> string \<Rightarrow> py_error + pyval" where
  "read_json s filepath =
     (case files s filepath of
        None \<Rightarrow> Inr PNone
      | Some (Json v) \<Rightarrow> Inr v
      | Some (Truncated v) \<Rightarrow> Inl JSONDecodeError
      | Some (Malformed t) \<Rightarrow> Inl JSONDecodeError)"

text \<open>
  \<^verbatim>\<open>write_status\<close> (lines 57-63). The process id and the reading of
  \<^verbatim>\<open>datetime.now().isoformat()\<close> come from the environment.
\<close>

definition status_record :: "int \<Rightarrow> string \<Rightarrow> string \<Rightarrow> string \<Rightarrow> pyval" where
  "status_record pid updated_at status detail =
     PDict [(PStr ''status'', PStr status),
            (PStr ''detail'', PStr detail),
            (PStr ''updated_at'', PStr updated_at),
            (PStr ''pid'', PInt pid)]"

definition write_status :: "int \<Rightarrow> string \<Rightarrow> string \<Rightarrow> string \<Rightarrow> run \<Rightarrow> run" where
  "write_status pid updated_at status detail r =
     write_json_atomic ''status.json'' (status_record pid updated_at status detail) r"

text \<open>\<^verbatim>\<open>append_log\<close> (lines 66-68): opening in append mode creates a missing file.\<close>

definition log_text :: "task_dir \<Rightarrow> string" where
  "log_text s = (case output_log s of None \<Rightarrow> [] | Some l \<Rightarrow> l)"

definition append_log :: "string \<Rightarrow> task_dir \<Rightarrow> task_dir" where
  "append_log text s = s\<lparr>output_log := Some (log_text s @ text)\<rparr>"

text \<open>The state tag of the status artifact, when the artifact holds a complete record.\<close>

definition status_tag :: "task_dir \<Rightarrow> pyval option" where
  "status_tag s =
     (case files s ''status.json'' of
        Some (Json (PDict d)) \<Rightarrow> dict_lookup d (PStr ''status'')
      | _ \<Rightarrow> None)"

section \<open>The permission callback\<close>

datatype permission_result = PermissionResultAllow pyval | PermissionResultDeny

definition ANSWER_TIMEOUT :: real where
  "ANSWER_TIMEOUT = 600"

text \<open>
  What the environment contributes to one pass of the polling loop (lines 102-144): what
  the supervising process wrote to \<^verbatim>\<open>answer.json\<close> since the previous poll, if anything;
  the reading of \<^verbatim>\<open>time.time()\<close> at the timeout check; the reading of
  \<^verbatim>\<open>datetime.now().isoformat()\<close> for a status write of this pass.
\<close>

record tick =
  arrival :: "content option"
  time_now :: real
  stamp :: string

text \<open>
  The environment of one call of \<^verbatim>\<open>handle_ask_user_question\<close>: the clock readings of
  lines 91, 93 and 101, and the passes of the polling loop, as many as the observer follows.
  The process id (\<^verbatim>\<open>os.getpid()\<close>) is a parameter of every function that writes the status.
\<close>

record ask_env =
  asked_at :: string
  waiting_at :: string
  start_time :: real
  ticks :: "tick list"

text \<open>
  Lines 111-118: the answers handed back for an observed answer artifact. In the
  dictionary display the key is evaluated before the value, and hashed last.
\<close>

definition resolve_answers :: "pyval \<Rightarrow> pyval \<Rightarrow> py_error + pyval" where
  "resolve_answers questions answer_data =
     (if \<not> truthy answer_data then Inr (PDict [])
      else (case py_contains ''answers'' answer_data of
        Inl e \<Rightarrow> Inl e
      | Inr True \<Rightarrow> py_item answer_data ''answers''
      | Inr False \<Rightarrow>
          (case py_contains ''text'' answer_data of
             Inl e \<Rightarrow> Inl e
           | Inr False \<Rightarrow> Inr (PDict [])
           | Inr True \<Rightarrow>
               (if \<not> truthy questions then Inr (PDict [])
                else (case py_first questions of
                  Inl e \<Rightarrow> Inl e
                | Inr q \<Rightarrow>
                    (case py_item q ''question'' of
                       Inl e \<Rightarrow> Inl e
                     | Inr k \<Rightarrow>
                         (case py_item answer_data ''text'' of
                            Inl e \<Rightarrow> Inl e
                          | Inr v \<Rightarrow>
                              (if hashable k then Inr (PDict [(k, v)])
                               else Inl TypeError))))))))"

text \<open>
  Lines 131-137: the default answers. In each assignment the right-hand side (the default
  of the sub-question, lines 133-137) is evaluated first, then the key, then the store is
  made.
\<close>

definition default_answer :: "pyval \<Rightarrow> py_error + pyval" where
  "default_answer q =
     (case py_get q (PStr ''options'') (PList []) of
        Inl e \<Rightarrow> Inl e
      | Inr options \<Rightarrow>
          (if truthy options
           then (case py_first options of
                   Inl e \<Rightarrow> Inl e
                 | Inr opt \<Rightarrow> py_item opt ''label'')
           else Inr (PStr ''No preference'')))"

fun default_answers ::
  "pyval list \<Rightarrow> (pyval \<times> pyval) list \<Rightarrow> py_error + (pyval \<times> pyval) list" where
  "default_answers [] acc = Inr acc"
| "default_answers (q # qs) acc =
     (case default_answer q of
        Inl e \<Rightarrow> Inl e
      | Inr v \<Rightarrow>
          (case py_item q ''question'' of
             Inl e \<Rightarrow> Inl e
           | Inr k \<Rightarrow>
               (case py_setitem acc k v of
                  Inl e \<Rightarrow> Inl e
                | Inr acc' \<Rightarrow> default_answers qs acc')))"

definition allow_answers :: "pyval \<Rightarrow> pyval \<Rightarrow> permission_result" where
  "allow_answers questions answers =
     PermissionResultAllow (PDict [(PStr ''questions'', questions), (PStr ''answers'', answers)])"

definition timeout_result :: "pyval \<Rightarrow> py_error + permission_result" where
  "timeout_result questions =
     (case py_iter questions of
        Inl e \<Rightarrow> Inl e
      | Inr qs \<Rightarrow>
          (case default_answers qs [] of
             Inl e \<Rightarrow> Inl e
           | Inr d \<Rightarrow> Inr (allow_answers questions (PDict d))))"

definition answer_result :: "pyval \<Rightarrow> pyval \<Rightarrow> py_error + permission_result" where
  "answer_result questions answer_data =
     (case resolve_answers questions answer_data of
        Inl e \<Rightarrow> Inl e
      | Inr answers \<Rightarrow> Inr (allow_answers questions answers))"

text \<open>
  The polling loop (lines 102-144), one equation per pass. The result is \<open>None\<close> when the
  passes supplied are used up with the loop still waiting, \<open>Some (Inl e)\<close> when the pass
  raises \<open>e\<close>, \<open>Some (Inr p)\<close> when it returns \<open>p\<close>.
\<close>

fun poll ::
  "int \<Rightarrow> pyval \<Rightarrow> real \<Rightarrow> tick list \<Rightarrow> run \<Rightarrow> run \<times> (py_error + permission_result) option" where
  "poll pid questions t0 [] r = (r, None)"
| "poll pid questions t0 (t # ts) r =
     (let r1 = (case arrival t of None \<Rightarrow> r | Some c \<Rightarrow> step (put_file ''answer.json'' c) r)
      in if exists_file (now r1) ''answer.json'' then
           (case read_json (now r1) ''answer.json'' of
              Inl e \<Rightarrow> (r1, Some (Inl e))
            | Inr answer_data \<Rightarrow>
                (let r2 = step (unlink ''question.json'') r1;
                     r3 = step (unlink ''answer.json'') r2;
                     r4 = write_status pid (stamp t) ''running'' ''Received answer, continuing'' r3
                 in (r4, Some (answer_result questions answer_data))))
         else if time_now t - t0 > ANSWER_TIMEOUT then
           (let r2 = step (unlink ''question.json'') r1;
                r3 = write_status pid (stamp t) ''running''
                       ''Answer timed out, continuing with default'' r2
            in (r3, Some (timeout_result questions)))
         else poll pid questions t0 ts r1)"

text \<open>\<^verbatim>\<open>handle_ask_user_question\<close> (lines 82-144).\<close>

definition handle_ask_user_question ::
  "int \<Rightarrow> ask_env \<Rightarrow> pyval \<Rightarrow> run \<Rightarrow> run \<times> (py_error + permission_result) option" where
  "handle_ask_user_question pid env input_data r =
     (case py_get input_data (PStr ''questions'') (PList []) of
        Inl e \<Rightarrow> (r, Some (Inl e))
      | Inr questions \<Rightarrow>
          (let r1 = write_json_atomic ''question.json''
                      (PDict [(PStr ''questions'', questions),
                              (PStr ''asked_at'', PStr (asked_at env))]) r;
               r2 = write_status pid (waiting_at env) ''waiting_for_answer''
                      ''Claude is asking a clarifying question'' r1;
               r3 = (if exists_file (now r2) ''answer.json''
                     then step (unlink ''answer.json'') r2 else r2)
           in poll pid questions (start_time env) (ticks env) r3))"

text \<open>\<^verbatim>\<open>can_use_tool\<close> (lines 73-79).\<close>

definition can_use_tool ::
  "int \<Rightarrow> ask_env \<Rightarrow> string \<Rightarrow> pyval \<Rightarrow> run \<Rightarrow> run \<times> (py_error + permission_result) option" where
  "can_use_tool pid env tool_name input_data r =
     (if tool_name = ''AskUserQuestion'' then handle_ask_user_question pid env input_data r
      else (r, Some (Inr (PermissionResultAllow input_data))))"

section \<open>The agent run\<close>

text \<open>
  What \<^verbatim>\<open>run_bridge\<close> looks at in the messages of the SDK's stream. A fault of the session is
  an instance of \<^verbatim>\<open>Exception\<close> with its class name (\<^verbatim>\<open>type(e).__name__\<close>) and its text
  (\<^verbatim>\<open>str(e)\<close>). An attribute that \<^verbatim>\<open>hasattr\<close> may find missing is optional.
\<close>

record exn =
  exn_type :: string
  exn_text :: string

datatype block = TextBlock string | ToolUseBlock string pyval | OtherBlock

record result_message =
  subtype :: pyval
  result :: "pyval option"
  session_id :: "pyval option"
  num_turns :: "pyval option"
  total_cost_usd :: "pyval option"
  is_error :: "pyval option"

datatype message = AssistantMessage "block list" | ResultMessage result_message | OtherMessage

text \<open>
  The stream either yields a message, processed at the two clock readings given (lines
  215 and 233/235), or raises.
\<close>

datatype event = Yield message string string | Raise exn

record bridge_env =
  created_at :: string
  starting_at :: string
  running_at :: string
  failed_at :: string
  events :: "event list"

text \<open>Lines 207-210.\<close>

fun log_block :: "block \<Rightarrow> run \<Rightarrow> run" where
  "log_block (TextBlock text) r = step (append_log (text @ ''\<newline>'')) r"
| "log_block (ToolUseBlock name input) r =
     step (append_log (''[Tool: '' @ name @ '']\<newline>'')) r"
| "log_block OtherBlock r = r"

definition set_attr :: "string \<Rightarrow> pyval option \<Rightarrow> (pyval \<times> pyval) list \<Rightarrow> (pyval \<times> pyval) list" where
  "set_attr name attr d = (case attr of None \<Rightarrow> d | Some v \<Rightarrow> dict_store d (PStr name) v)"

text \<open>Lines 213-227.\<close>

definition result_data :: "result_message \<Rightarrow> string \<Rightarrow> pyval" where
  "result_data m completed_at =
     PDict (set_attr ''is_error'' (is_error m)
           (set_attr ''total_cost_usd'' (total_cost_usd m)
           (set_attr ''num_turns'' (num_turns m)
           (set_attr ''session_id'' (session_id m)
           (set_attr ''result'' (result m)
              [(PStr ''subtype'', subtype m),
               (PStr ''completed_at'', PStr completed_at)])))))"

text \<open>The body of the \<^verbatim>\<open>async for\<close> loop (lines 205-235).\<close>

fun on_message :: "int \<Rightarrow> message \<Rightarrow> string \<Rightarrow> string \<Rightarrow> run \<Rightarrow> run" where
  "on_message pid (AssistantMessage content) t1 t2 r = fold log_block content r"
| "on_message pid (ResultMessage m) t1 t2 r =
     (let r1 = write_json_atomic ''result.json'' (result_data m t1) r
      in if truthy (case is_error m of None \<Rightarrow> PBool False | Some v \<Rightarrow> v)
         then write_status pid t2 ''error'' ''Claude Code reported an error'' r1
         else write_status pid t2 ''complete'' ''Task finished successfully'' r1)"
| "on_message pid OtherMessage t1 t2 r = r"

text \<open>The loop itself: it ends with the stream, or with the exception the stream raises.\<close>

fun consume :: "int \<Rightarrow> event list \<Rightarrow> run \<Rightarrow> run \<times> exn option" where
  "consume pid [] r = (r, None)"
| "consume pid (Yield m t1 t2 # es) r = consume pid es (on_message pid m t1 t2 r)"
| "consume pid (Raise e # es) r = (r, Some e)"

text \<open>Line 187: \<^verbatim>\<open>touch\<close> creates an empty log unless there is one.\<close>

definition touch_log :: "task_dir \<Rightarrow> task_dir" where
  "touch_log s = s\<lparr>output_log := Some (log_text s)\<rparr>"

text \<open>
  \<^verbatim>\<open>run_bridge\<close> (lines 169-240), first what it does before the session starts (lines
  171-198; \<^verbatim>\<open>mkdir\<close> leaves the content of the directory as it is). The result of
  \<^verbatim>\<open>run_bridge\<close> is \<open>Inl e\<close> when the call ends by raising \<open>e\<close>. The callback is called by
  the SDK, not by this function; its runs are the subject of the previous section.
\<close>

definition bridge_setup :: "int \<Rightarrow> bridge_env \<Rightarrow> string \<Rightarrow> string \<Rightarrow> string \<Rightarrow> run \<Rightarrow> run" where
  "bridge_setup pid env task_id workdir prompt r =
     (let r1 = step (\<lambda>s. s\<lparr>bridge_pid := Some pid\<rparr>) r;
          r2 = write_json_atomic ''task.json''
                 (PDict [(PStr ''task_id'', PStr task_id),
                         (PStr ''workdir'', PStr workdir),
                         (PStr ''prompt'', PStr prompt),
                         (PStr ''created_at'', PStr (created_at env))]) r1;
          r3 = write_status pid (starting_at env) ''starting''
                 ''Initializing Claude Code session'' r2;
          r4 = step touch_log r3
      in write_status pid (running_at env) ''running'' ''Claude Code session active'' r4)"

definition run_bridge ::
  "int \<Rightarrow> bridge_env \<Rightarrow> string \<Rightarrow> string \<Rightarrow> string \<Rightarrow> run \<Rightarrow> run \<times> (exn + unit)" where
  "run_bridge pid env task_id workdir prompt r =
     (case consume pid (events env) (bridge_setup pid env task_id workdir prompt r) of
        (r6, None) \<Rightarrow> (r6, Inr ())
      | (r6, Some e) \<Rightarrow>
          (let r7 = write_status pid (failed_at env) ''error''
                      (exn_type e @ '': '' @ exn_text e) r6;
               r8 = step (append_log (''\<newline>[BRIDGE ERROR] '' @ exn_type e @ '': ''
                                       @ exn_text e @ ''\<newline>'')) r7
           in (r8, Inl e)))"

section \<open>Notions used in the statements\<close>

text \<open>
  A pass of the polling loop is quiet when the supervising process has written no answer
  since the previous pass and the deadline has not passed at its timeout check.
\<close>

definition quiet :: "real \<Rightarrow> tick \<Rightarrow> bool" where
  "quiet t0 t = (arrival t = None \<and> \<not> time_now t - t0 > ANSWER_TIMEOUT)"






text \<open>The question artifact is there only while the status says so.\<close>

definition question_implies_waiting :: "task_dir \<Rightarrow> bool" where
  "question_implies_waiting s =
     (exists_file s ''question.json'' \<longrightarrow> status_tag s = Some (PStr ''waiting_for_answer''))"



text \<open>The durable JSON artifacts, and the condition of a file caught in the middle of a write.\<close>

definition artifacts :: "string list" where
  "artifacts = [''status.json'', ''question.json'', ''task.json'', ''result.json'']"

fun partly_written :: "content option \<Rightarrow> bool" where
  "partly_written (Some (Truncated v)) = True"
| "partly_written c = False"

definition artifacts_whole :: "task_dir \<Rightarrow> bool" where
  "artifacts_whole s = list_all (\<lambda>p. \<not> partly_written (files s p)) artifacts"

text \<open>The run \<open>r'\<close> continues the run \<open>r\<close>, through states that all satisfy \<open>P\<close>.\<close>

definition continues :: "(task_dir \<Rightarrow> bool) \<Rightarrow> run \<Rightarrow> run \<Rightarrow> bool" where
  "continues P r r' =
     (take (length (trace r)) (trace r') = trace r \<and>
      list_all P (drop (length (trace r)) (trace r')))"


text \<open>What the handler has done when polling begins (lines 86-101).\<close>

definition asked :: "int \<Rightarrow> ask_env \<Rightarrow> pyval \<Rightarrow> run \<Rightarrow> run" where
  "asked pid env questions r =
     (let r1 = write_json_atomic ''question.json''
                 (PDict [(PStr ''questions'', questions),
                         (PStr ''asked_at'', PStr (asked_at env))]) r;
          r2 = write_status pid (waiting_at env) ''waiting_for_answer''
                 ''Claude is asking a clarifying question'' r1
      in if exists_file (now r2) ''answer.json'' then step (unlink ''answer.json'') r2 else r2)"

section \<open>Example inputs\<close>

definition empty_dir :: task_dir where
  "empty_dir = \<lparr>files = (\<lambda>p. None), output_log = None, bridge_pid = None\<rparr>"

definition labelled :: "string \<Rightarrow> pyval" where
  "labelled l = PDict [(PStr ''label'', PStr l)]"

definition asking :: "string \<Rightarrow> string list \<Rightarrow> pyval" where
  "asking text labels =
     PDict [(PStr ''question'', PStr text), (PStr ''options'', PList (map labelled labels))]"

definition ask_input :: "pyval list \<Rightarrow> pyval" where
  "ask_input qs = PDict [(PStr ''questions'', PList qs)]"

text \<open>Polling starts when the clock reads 1000.\<close>

definition idle :: tick where
  "idle = \<lparr>arrival = None, time_now = 1002, stamp = ''2026-01-01T00:00:02''\<rparr>"

definition reply :: "content \<Rightarrow> tick" where
  "reply c = \<lparr>arrival = Some c, time_now = 1004, stamp = ''2026-01-01T00:00:04''\<rparr>"

definition late :: tick where
  "late = \<lparr>arrival = None, time_now = 1601, stamp = ''2026-01-01T00:10:01''\<rparr>"

definition session :: "tick list \<Rightarrow> ask_env" where
  "session ts = \<lparr>asked_at = ''2026-01-01T00:00:00'', waiting_at = ''2026-01-01T00:00:00'',
                 start_time = 1000, ticks = ts\<rparr>"

definition running_dir :: task_dir where
  "running_dir =
     now (write_status 4242 ''2026-01-01T00:00:00'' ''running'' ''Claude Code session active''
            (start empty_dir))"


section \<open>Files and runs\<close>

lemma tmp_names [simp]:
  "with_suffix ''status.json'' ''.tmp'' = ''status.tmp''"
  "with_suffix ''question.json'' ''.tmp'' = ''question.tmp''"
  "with_suffix ''task.json'' ''.tmp'' = ''task.tmp''"
  "with_suffix ''result.json'' ''.tmp'' = ''result.tmp''"
  by (simp_all add: with_suffix_def suffix_of_def)

lemma now_step [simp]: "now (step f r) = f (now r)"
  by (simp add: now_def step_def)

lemma now_start [simp]: "now (start s) = s"
  by (simp add: now_def start_def)

lemma files_unlink [simp]: "files (unlink p s) = (files s)(p := None)"
  by (simp add: unlink_def)

lemma files_put_file [simp]: "files (put_file p c s) = (files s)(p \<mapsto> c)"
  by (simp add: put_file_def)

lemma files_write_json_atomic:
  "files (now (write_json_atomic p d r)) =
     ((files (now r))(with_suffix p ''.tmp'' := None))(p \<mapsto> Json d)"
  by (simp add: write_json_atomic_def Let_def rename_def)

lemma files_write_status [simp]:
  "files (now (write_status pid t st dt r)) =
     ((files (now r))(''status.tmp'' := None))
       (''status.json'' \<mapsto> Json (status_record pid t st dt))"
  by (simp add: write_status_def files_write_json_atomic)

lemma trace_step: "trace (step f r) = trace r @ [f (now r)]"
  by (simp add: trace_def step_def now_def)

lemma trace_start [simp]: "trace (start s) = [s]"
  by (simp add: trace_def start_def)

lemma trace_write_json_atomic:
  "trace (write_json_atomic p d r) =
     trace r @ [put_file (with_suffix p ''.tmp'') (Truncated d) (now r),
                put_file (with_suffix p ''.tmp'') (Json d)
                  (put_file (with_suffix p ''.tmp'') (Truncated d) (now r)),
                now (write_json_atomic p d r)]"
  by (simp add: write_json_atomic_def Let_def trace_step)

lemma continuesI:
  "trace r' = trace r @ ext \<Longrightarrow> list_all P ext \<Longrightarrow> continues P r r'"
  by (simp add: continues_def)

lemma continuesD:
  "continues P r r' \<Longrightarrow> \<exists>ext. trace r' = trace r @ ext \<and> list_all P ext"
  unfolding continues_def by (metis append_take_drop_id)

lemma continues_refl: "continues P r r"
  by (simp add: continues_def)

lemma continues_trans:
  "continues P r r' \<Longrightarrow> continues P r' r'' \<Longrightarrow> continues P r r''"
  by (auto dest!: continuesD intro!: continuesI [where ext = "_ @ _"])

lemma continues_step: "P (f (now r)) \<Longrightarrow> continues P r (step f r)"
  by (rule continuesI [where ext = "[f (now r)]"]) (simp_all add: trace_step)

lemma continues_write_json_atomic:
  assumes "P (put_file (with_suffix p ''.tmp'') (Truncated d) (now r))"
    and "P (put_file (with_suffix p ''.tmp'') (Json d)
              (put_file (with_suffix p ''.tmp'') (Truncated d) (now r)))"
    and "P (now (write_json_atomic p d r))"
  shows "continues P r (write_json_atomic p d r)"
  using assms by (intro continuesI [OF trace_write_json_atomic]) simp

section \<open>The polling loop\<close>

lemma poll_quiet:
  "\<forall>t\<in>set pre. quiet t0 t \<Longrightarrow> \<not> exists_file (now r) ''answer.json'' \<Longrightarrow>
     poll pid questions t0 (pre @ ts) r = poll pid questions t0 ts r"
  by (induction pre) (simp_all add: quiet_def)

lemma poll_answer:
  "arrival t = Some (Json answer_data) \<Longrightarrow>
     snd (poll pid questions t0 (t # ts) r) = Some (answer_result questions answer_data)"
  by (simp add: Let_def exists_file_def read_json_def)



lemma handle_unfold:
  "py_get input_data (PStr ''questions'') (PList []) = Inr questions \<Longrightarrow>
   handle_ask_user_question pid env input_data r =
     poll pid questions (start_time env) (ticks env) (asked pid env questions r)"
  by (simp add: handle_ask_user_question_def asked_def Let_def)

lemma asked_no_answer: "\<not> exists_file (now (asked pid env questions r)) ''answer.json''"
  by (simp add: asked_def Let_def exists_file_def)

lemma handle_answer:
  assumes "py_get input_data (PStr ''questions'') (PList []) = Inr questions"
    and "ticks env = pre @ t # post"
    and "\<forall>u\<in>set pre. quiet (start_time env) u"
    and "arrival t = Some (Json answer_data)"
  shows "snd (handle_ask_user_question pid env input_data r)
           = Some (answer_result questions answer_data)"
  using assms by (simp add: handle_unfold poll_quiet asked_no_answer poll_answer del: poll.simps)




section \<open>Answers handed back by the callback\<close>





text \<open>
  Claim C10. If the question set is empty and the observed answer artifact carries a
  \<^verbatim>\<open>text\<close> field and no \<^verbatim>\<open>answers\<close> field, the handler returns an allow result with an
  empty answers dictionary: the free text is dropped, and nothing is raised.
\<close>

theorem free_text_without_questions:
  assumes "py_get input_data (PStr ''questions'') (PList []) = Inr (PList [])"
    and "ticks env = pre @ t # post"
    and "\<forall>u\<in>set pre. quiet (start_time env) u"
    and "arrival t = Some (Json (PDict d))"
    and "dict_lookup d (PStr ''answers'') = None"
    and "dict_lookup d (PStr ''text'') = Some free_text"
  shows "snd (handle_ask_user_question pid env input_data r)
           = Some (Inr (allow_answers (PList []) (PDict [])))"
proof -
  have "d \<noteq> []" using assms(6) by auto
  then have "resolve_answers (PList []) (PDict d) = Inr (PDict [])"
    using assms(5,6) by (simp add: resolve_answers_def)
  then show ?thesis
    using handle_answer [OF assms(1-4)] by (simp add: answer_result_def)
qed

theorem free_text_without_questions_witness:
  "snd (handle_ask_user_question 4242
         (session [idle, reply (Json (PDict [(PStr ''text'', PStr ''Blue'')]))])
         (PDict []) (start empty_dir))
     = Some (Inr (allow_answers (PList []) (PDict [])))"
  using free_text_without_questions
    [where input_data = "PDict []"
       and env = "session [idle, reply (Json (PDict [(PStr ''text'', PStr ''Blue'')]))]"
       and pre = "[idle]" and post = "[]"
       and t = "reply (Json (PDict [(PStr ''text'', PStr ''Blue'')]))"
       and d = "[(PStr ''text'', PStr ''Blue'')]"
       and free_text = "PStr ''Blue''"
       and pid = 4242 and r = "start empty_dir"]
  by (simp add: session_def idle_def reply_def quiet_def ANSWER_TIMEOUT_def)




section \<open>Other tools\<close>

text \<open>
  Claim C9. For a tool other than \<^verbatim>\<open>AskUserQuestion\<close>, \<^verbatim>\<open>can_use_tool\<close> returns an allow
  result with the tool input as it came and takes no step in the task directory (no
  question, no status is written); and for the tool-use block of the invocation the
  message loop of \<^verbatim>\<open>run_bridge\<close> appends to the output log the one line \<^verbatim>\<open>[Tool: name]\<close>.
\<close>

theorem other_tools_auto_approved:
  assumes "tool_name \<noteq> ''AskUserQuestion''"
  shows "can_use_tool pid env tool_name input_data r
           = (r, Some (Inr (PermissionResultAllow input_data)))
       \<and> now (log_block (ToolUseBlock tool_name input_data) r')
           = (now r')\<lparr>output_log :=
                Some (log_text (now r') @ ''[Tool: '' @ tool_name @ '']\<newline>'')\<rparr>"
  using assms by (simp add: can_use_tool_def append_log_def)

theorem other_tools_auto_approved_witness:
  "can_use_tool 4242 (session []) ''Bash'' (PDict [(PStr ''command'', PStr ''ls'')])
       (start empty_dir)
     = (start empty_dir, Some (Inr (PermissionResultAllow (PDict [(PStr ''command'', PStr ''ls'')]))))
   \<and> now (log_block (ToolUseBlock ''Bash'' (PDict [(PStr ''command'', PStr ''ls'')]))
            (start empty_dir))
     = empty_dir\<lparr>output_log := Some ''[Tool: Bash]\<newline>''\<rparr>"
  using other_tools_auto_approved
    [where tool_name = "''Bash''" and pid = 4242 and env = "session []"
       and input_data = "PDict [(PStr ''command'', PStr ''ls'')]"
       and r = "start empty_dir" and r' = "start empty_dir"]
  by (simp add: log_text_def empty_dir_def)


section \<open>Default answers\<close>

lemma key_eq_str [simp]: "py_key_eq a (PStr s) \<longleftrightarrow> a = PStr s"
  by (cases a) simp_all








section \<open>Answer artifacts that cannot be used\<close>






section \<open>The question artifact and the status\<close>

lemma qiw_absent: "files s ''question.json'' = None \<Longrightarrow> question_implies_waiting s"
  by (simp add: question_implies_waiting_def exists_file_def)

lemma qiw_same:
  "files s' ''status.json'' = files s ''status.json'' \<Longrightarrow>
   files s' ''question.json'' = files s ''question.json'' \<Longrightarrow>
   question_implies_waiting s \<Longrightarrow> question_implies_waiting s'"
  by (simp add: question_implies_waiting_def exists_file_def status_tag_def)

lemma continues_write_status_absent:
  "files (now r) ''question.json'' = None \<Longrightarrow>
     continues question_implies_waiting r (write_status pid t st dt r)"
  unfolding write_status_def
  by (rule continues_write_json_atomic)
     (simp_all add: qiw_absent files_write_json_atomic)

lemma poll_waiting:
  "question_implies_waiting (now r) \<Longrightarrow>
     continues question_implies_waiting r (fst (poll pid questions t0 ts r))"
proof (induction ts arbitrary: r)
  case Nil
  then show ?case by (simp add: continues_refl)
next
  case (Cons t ts)
  define r1 where
    "r1 = (case arrival t of None \<Rightarrow> r | Some c \<Rightarrow> step (put_file ''answer.json'' c) r)"
  have r1: "continues question_implies_waiting r r1"
    and now1: "question_implies_waiting (now r1)"
    using Cons.prems
    by (auto simp: r1_def continues_refl split: option.splits
          intro!: continues_step qiw_same [of _ "now r"])
  define r2 where "r2 = step (unlink ''question.json'') r1"
  have r2: "continues question_implies_waiting r1 r2"
    and gone: "files (now r2) ''question.json'' = None"
    by (auto simp: r2_def intro!: continues_step qiw_absent)
  define r3 where "r3 = step (unlink ''answer.json'') r2"
  have r3: "continues question_implies_waiting r2 r3"
    and gone3: "files (now r3) ''question.json'' = None"
    using gone by (auto simp: r3_def intro!: continues_step qiw_absent)
  have answered: "continues question_implies_waiting r
      (write_status pid (stamp t) ''running'' ''Received answer, continuing'' r3)"
    using r1 r2 r3 continues_write_status_absent [OF gone3] by (blast intro: continues_trans)
  have timed_out: "continues question_implies_waiting r
      (write_status pid (stamp t) ''running'' ''Answer timed out, continuing with default'' r2)"
    using r1 r2 continues_write_status_absent [OF gone] by (blast intro: continues_trans)
  have waiting: "continues question_implies_waiting r (fst (poll pid questions t0 ts r1))"
    using r1 Cons.IH [OF now1] by (blast intro: continues_trans)
  show ?case
    using r1 answered timed_out waiting
    by (simp add: Let_def r1_def [symmetric] r2_def [symmetric] r3_def [symmetric]
          split: sum.splits)
qed

lemma asked_trace:
  "\<exists>a1 a2 a3 a4 a5 ext.
      trace (asked pid env questions (start s0)) = [s0, a1, a2, a3, a4, a5] @ ext
      \<and> list_all question_implies_waiting ext
      \<and> question_implies_waiting (now (asked pid env questions (start s0)))"
  by (auto simp add: asked_def Let_def trace_write_json_atomic write_status_def trace_step
        question_implies_waiting_def status_tag_def status_record_def exists_file_def
        files_write_json_atomic)

text \<open>
  Claim C5, as amended. In a run of \<^verbatim>\<open>handle_ask_user_question\<close>, from the moment the
  status write of line 93 is complete (the sixth step of the handler: three for the
  question artifact, three for the status artifact), every state of the task directory in
  which the question artifact exists has the state tag \<^verbatim>\<open>waiting_for_answer\<close>; so the tag is
  \<^verbatim>\<open>running\<close> again only in states from which the question artifact is gone. Between the
  rename that puts the question artifact in place and the rename that puts the new status
  in place, the question artifact exists under the old status.
\<close>

theorem question_only_while_waiting:
  "list_all question_implies_waiting
     (drop 6 (trace (fst (handle_ask_user_question pid env input_data (start s0)))))"
proof (cases "py_get input_data (PStr ''questions'') (PList [])")
  case (Inl e)
  then show ?thesis by (simp add: handle_ask_user_question_def)
next
  case (Inr questions)
  obtain a1 a2 a3 a4 a5 ext where
    tr: "trace (asked pid env questions (start s0)) = [s0, a1, a2, a3, a4, a5] @ ext"
    and ext: "list_all question_implies_waiting ext"
    and cur: "question_implies_waiting (now (asked pid env questions (start s0)))"
    using asked_trace by blast
  from poll_waiting [OF cur] obtain ext' where
    "trace (fst (poll pid questions (start_time env) (ticks env)
        (asked pid env questions (start s0)))) = trace (asked pid env questions (start s0)) @ ext'"
    and "list_all question_implies_waiting ext'"
    by (blast dest: continuesD)
  with tr ext show ?thesis by (simp add: handle_unfold [OF Inr])
qed

lemma example_trace:
  "trace (fst (handle_ask_user_question 4242 (session [])
                (ask_input [asking ''Proceed?'' [''Yes'', ''No'']]) (start running_dir)))
     = trace (asked 4242 (session []) (PList [asking ''Proceed?'' [''Yes'', ''No'']])
                (start running_dir))"
  by (simp add: handle_unfold ask_input_def session_def)

lemma asked_third_state:
  "files (trace (asked pid env questions (start s0)) ! 3) ''question.json'' \<noteq> None
   \<and> files (trace (asked pid env questions (start s0)) ! 3) ''status.json''
       = files s0 ''status.json''"
  by (simp add: asked_def Let_def trace_write_json_atomic write_status_def trace_step
        files_write_json_atomic nth_append)

lemma asked_sixth_state:
  "6 < length (trace (asked pid env questions (start s0)))
   \<and> files (trace (asked pid env questions (start s0)) ! 6) ''question.json'' \<noteq> None"
  by (simp add: asked_def Let_def trace_write_json_atomic write_status_def trace_step
        files_write_json_atomic nth_append)

theorem question_only_while_waiting_witness:
  "exists_file (trace (fst (handle_ask_user_question 4242 (session [])
                  (ask_input [asking ''Proceed?'' [''Yes'', ''No'']]) (start running_dir))) ! 6)
      ''question.json''
   \<and> status_tag (trace (fst (handle_ask_user_question 4242 (session [])
                  (ask_input [asking ''Proceed?'' [''Yes'', ''No'']]) (start running_dir))) ! 6)
       = Some (PStr ''waiting_for_answer'')"
proof -
  let ?tr = "trace (fst (handle_ask_user_question 4242 (session [])
                  (ask_input [asking ''Proceed?'' [''Yes'', ''No'']]) (start running_dir)))"
  have long: "6 < length ?tr" and there: "exists_file (?tr ! 6) ''question.json''"
    using asked_sixth_state [of 4242 "session []" _ running_dir]
    by (simp_all add: example_trace exists_file_def)
  from long have "?tr ! 6 \<in> set (drop 6 ?tr)"
    by (auto simp: in_set_conv_nth intro!: exI [of _ 0])
  with question_only_while_waiting
    [of 4242 "session []" "ask_input [asking ''Proceed?'' [''Yes'', ''No'']]" running_dir]
  have "question_implies_waiting (?tr ! 6)" by (simp add: list_all_iff)
  with there show ?thesis by (simp add: question_implies_waiting_def)
qed

text \<open>
  Claim C5 as it was stated fails in the state right after the question artifact is
  renamed into place (the third step of the handler): the question artifact exists and
  the status artifact still says \<^verbatim>\<open>running\<close>.
\<close>

theorem question_before_waiting_counterexample:
  "exists_file (trace (fst (handle_ask_user_question 4242 (session [])
                  (ask_input [asking ''Proceed?'' [''Yes'', ''No'']]) (start running_dir))) ! 3)
      ''question.json''
   \<and> status_tag (trace (fst (handle_ask_user_question 4242 (session [])
                  (ask_input [asking ''Proceed?'' [''Yes'', ''No'']]) (start running_dir))) ! 3)
       = Some (PStr ''running'')"
proof -
  have "status_tag running_dir = Some (PStr ''running'')"
    by (simp add: running_dir_def status_tag_def status_record_def)
  then show ?thesis
    using asked_third_state [of 4242 "session []" _ running_dir]
    by (simp add: example_trace exists_file_def status_tag_def)
qed

section \<open>Faults of the session\<close>


lemma log_write_json_atomic [simp]:
  "output_log (now (write_json_atomic p d r)) = output_log (now r)"
  by (simp add: write_json_atomic_def Let_def rename_def put_file_def)

lemma log_write_status [simp]:
  "output_log (now (write_status pid t st dt r)) = output_log (now r)"
  by (simp add: write_status_def)




section \<open>Atomic writes\<close>

lemma continues_now:
  assumes "continues P r r'" and "P (now r)"
  shows "P (now r')"
proof -
  from assms(1) obtain ext where tr: "trace r' = trace r @ ext" and ext: "list_all P ext"
    by (blast dest: continuesD)
  have "now r' = last (trace r')" and "now r = last (trace r)"
    by (simp_all add: trace_def now_def)
  with tr ext assms(2) show ?thesis
    by (cases "ext = []") (auto simp: list_all_iff)
qed

lemma continues_seq:
  assumes "continues P r r'" and "P (now r') \<Longrightarrow> continues P r' r''" and "P (now r)"
  shows "continues P r r''"
  using assms continues_now continues_trans by blast

lemma artifacts_whole_iff:
  "artifacts_whole s \<longleftrightarrow> (\<forall>p\<in>set artifacts. \<not> partly_written (files s p))"
  by (simp add: artifacts_whole_def list_all_iff)

lemma tmp_not_artifact: "with_suffix p ''.tmp'' \<notin> set artifacts"
proof -
  have "\<exists>stem. with_suffix p ''.tmp'' = stem @ ''.tmp''"
    by (simp add: with_suffix_def)
  then obtain stem where "with_suffix p ''.tmp'' = stem @ ''.tmp''" ..
  then have "last (with_suffix p ''.tmp'') = CHR ''p''" by simp
  then show ?thesis by (auto simp: artifacts_def)
qed

lemma answer_not_artifact: "''answer.json'' \<notin> set artifacts"
  by (simp add: artifacts_def)

lemma whole_write_json_atomic:
  assumes "artifacts_whole (now r)"
  shows "continues artifacts_whole r (write_json_atomic p d r)"
proof (rule continues_write_json_atomic)
  show "artifacts_whole (put_file (with_suffix p ''.tmp'') (Truncated d) (now r))"
    using assms tmp_not_artifact [of p] by (auto simp: artifacts_whole_iff)
  show "artifacts_whole (put_file (with_suffix p ''.tmp'') (Json d)
          (put_file (with_suffix p ''.tmp'') (Truncated d) (now r)))"
    using assms by (auto simp: artifacts_whole_iff)
  show "artifacts_whole (now (write_json_atomic p d r))"
    using assms by (auto simp: artifacts_whole_iff files_write_json_atomic)
qed

lemma whole_write_status:
  "artifacts_whole (now r) \<Longrightarrow> continues artifacts_whole r (write_status pid t st dt r)"
  by (simp add: write_status_def whole_write_json_atomic)

lemma whole_unlink:
  "artifacts_whole (now r) \<Longrightarrow> continues artifacts_whole r (step (unlink p) r)"
  by (rule continues_step) (auto simp: artifacts_whole_iff)

lemma whole_arrival:
  "artifacts_whole (now r) \<Longrightarrow>
     continues artifacts_whole r (step (put_file ''answer.json'' c) r)"
  using answer_not_artifact by (intro continues_step) (auto simp: artifacts_whole_iff)

lemma whole_log:
  "artifacts_whole (now r) \<Longrightarrow> files (f (now r)) = files (now r) \<Longrightarrow>
     continues artifacts_whole r (step f r)"
  by (rule continues_step) (simp add: artifacts_whole_iff)

lemma poll_whole:
  "artifacts_whole (now r) \<Longrightarrow>
     continues artifacts_whole r (fst (poll pid questions t0 ts r))"
proof (induction ts arbitrary: r)
  case Nil
  then show ?case by (simp add: continues_refl)
next
  case (Cons t ts)
  define r1 where
    "r1 = (case arrival t of None \<Rightarrow> r | Some c \<Rightarrow> step (put_file ''answer.json'' c) r)"
  have r1: "continues artifacts_whole r r1"
    using Cons.prems by (auto simp: r1_def continues_refl whole_arrival split: option.splits)
  then have now1: "artifacts_whole (now r1)" using Cons.prems by (rule continues_now)
  define r2 where "r2 = step (unlink ''question.json'') r1"
  have r2: "continues artifacts_whole r1 r2" unfolding r2_def using now1 by (rule whole_unlink)
  then have now2: "artifacts_whole (now r2)" using now1 by (rule continues_now)
  define r3 where "r3 = step (unlink ''answer.json'') r2"
  have r3: "continues artifacts_whole r2 r3" unfolding r3_def using now2 by (rule whole_unlink)
  then have now3: "artifacts_whole (now r3)" using now2 by (rule continues_now)
  have answered: "continues artifacts_whole r
      (write_status pid (stamp t) ''running'' ''Received answer, continuing'' r3)"
    using r1 r2 r3 whole_write_status [OF now3] by (blast intro: continues_trans)
  have timed_out: "continues artifacts_whole r
      (write_status pid (stamp t) ''running'' ''Answer timed out, continuing with default'' r2)"
    using r1 r2 whole_write_status [OF now2] by (blast intro: continues_trans)
  have waiting: "continues artifacts_whole r (fst (poll pid questions t0 ts r1))"
    using r1 Cons.IH [OF now1] by (blast intro: continues_trans)
  show ?case
    using r1 answered timed_out waiting
    by (simp add: Let_def r1_def [symmetric] r2_def [symmetric] r3_def [symmetric]
          split: sum.splits)
qed

lemma asked_whole:
  assumes "artifacts_whole (now r)"
  shows "continues artifacts_whole r (asked pid env questions r)"
proof -
  define r1 where "r1 = write_json_atomic ''question.json''
                 (PDict [(PStr ''questions'', questions),
                         (PStr ''asked_at'', PStr (asked_at env))]) r"
  define r2 where "r2 = write_status pid (waiting_at env) ''waiting_for_answer''
                 ''Claude is asking a clarifying question'' r1"
  have r1: "continues artifacts_whole r r1"
    unfolding r1_def using assms by (rule whole_write_json_atomic)
  then have now1: "artifacts_whole (now r1)" using assms by (rule continues_now)
  have r2: "continues artifacts_whole r1 r2"
    unfolding r2_def using now1 by (rule whole_write_status)
  then have now2: "artifacts_whole (now r2)" using now1 by (rule continues_now)
  have "continues artifacts_whole r r2" using r1 r2 by (rule continues_trans)
  moreover have "continues artifacts_whole r (step (unlink ''answer.json'') r2)"
    using r1 r2 whole_unlink [OF now2] by (blast intro: continues_trans)
  ultimately show ?thesis
    by (simp add: asked_def Let_def r1_def [symmetric] r2_def [symmetric])
qed

lemma handle_whole:
  assumes "artifacts_whole (now r)"
  shows "continues artifacts_whole r (fst (handle_ask_user_question pid env input_data r))"
proof (cases "py_get input_data (PStr ''questions'') (PList [])")
  case (Inl e)
  then show ?thesis by (simp add: handle_ask_user_question_def continues_refl)
next
  case (Inr questions)
  have "continues artifacts_whole r (asked pid env questions r)"
    using assms by (rule asked_whole)
  then show ?thesis
    unfolding handle_unfold [OF Inr] using poll_whole assms by (rule continues_seq)
qed

lemma log_block_whole:
  "artifacts_whole (now r) \<Longrightarrow> continues artifacts_whole r (log_block b r)"
  by (cases b) (simp_all add: whole_log append_log_def continues_refl)

lemma log_blocks_whole:
  "artifacts_whole (now r) \<Longrightarrow> continues artifacts_whole r (fold log_block bs r)"
proof (induction bs arbitrary: r)
  case Nil
  then show ?case by (simp add: continues_refl)
next
  case (Cons b bs)
  have "continues artifacts_whole r (log_block b r)" using Cons.prems by (rule log_block_whole)
  then show ?case
    using Cons.IH Cons.prems by (simp add: continues_seq)
qed

lemma on_message_whole:
  assumes "artifacts_whole (now r)"
  shows "continues artifacts_whole r (on_message pid m t1 t2 r)"
proof (cases m)
  case (AssistantMessage bs)
  then show ?thesis using assms by (simp add: log_blocks_whole)
next
  case (ResultMessage rm)
  have "continues artifacts_whole r (write_json_atomic ''result.json'' (result_data rm t1) r)"
    using assms by (rule whole_write_json_atomic)
  then show ?thesis
    using ResultMessage assms by (auto simp: Let_def intro: continues_seq whole_write_status)
next
  case OtherMessage
  then show ?thesis by (simp add: continues_refl)
qed

lemma consume_whole:
  "artifacts_whole (now r) \<Longrightarrow> continues artifacts_whole r (fst (consume pid es r))"
proof (induction es arbitrary: r)
  case Nil
  then show ?case by (simp add: continues_refl)
next
  case (Cons x es)
  show ?case
  proof (cases x)
    case (Yield m t1 t2)
    have "continues artifacts_whole r (on_message pid m t1 t2 r)"
      using Cons.prems by (rule on_message_whole)
    then show ?thesis
      using Yield Cons.IH Cons.prems by (simp add: continues_seq)
  next
    case (Raise e)
    then show ?thesis by (simp add: continues_refl)
  qed
qed

lemma bridge_setup_whole:
  assumes "artifacts_whole (now r)"
  shows "continues artifacts_whole r (bridge_setup pid env task_id workdir prompt r)"
proof -
  define r1 where "r1 = step (\<lambda>s. s\<lparr>bridge_pid := Some pid\<rparr>) r"
  define r2 where "r2 = write_json_atomic ''task.json''
                 (PDict [(PStr ''task_id'', PStr task_id),
                         (PStr ''workdir'', PStr workdir),
                         (PStr ''prompt'', PStr prompt),
                         (PStr ''created_at'', PStr (created_at env))]) r1"
  define r3 where "r3 = write_status pid (starting_at env) ''starting''
                 ''Initializing Claude Code session'' r2"
  define r4 where "r4 = step touch_log r3"
  define r5 where
    "r5 = write_status pid (running_at env) ''running'' ''Claude Code session active'' r4"
  have r1: "continues artifacts_whole r r1"
    unfolding r1_def using assms by (rule whole_log) simp
  then have now1: "artifacts_whole (now r1)" using assms by (rule continues_now)
  have r2: "continues artifacts_whole r1 r2"
    unfolding r2_def using now1 by (rule whole_write_json_atomic)
  then have now2: "artifacts_whole (now r2)" using now1 by (rule continues_now)
  have r3: "continues artifacts_whole r2 r3"
    unfolding r3_def using now2 by (rule whole_write_status)
  then have now3: "artifacts_whole (now r3)" using now2 by (rule continues_now)
  have r4: "continues artifacts_whole r3 r4"
    unfolding r4_def using now3 by (rule whole_log) (simp add: touch_log_def)
  then have now4: "artifacts_whole (now r4)" using now3 by (rule continues_now)
  have r5: "continues artifacts_whole r4 r5"
    unfolding r5_def using now4 by (rule whole_write_status)
  have "continues artifacts_whole r r5"
    using r1 r2 r3 r4 r5 by (blast intro: continues_trans)
  then show ?thesis
    by (simp add: bridge_setup_def Let_def r1_def r2_def r3_def r4_def r5_def)
qed

lemma run_bridge_ended:
  "consume pid (events env) (bridge_setup pid env task_id workdir prompt r) = (r6, None) \<Longrightarrow>
     fst (run_bridge pid env task_id workdir prompt r) = r6"
  by (simp add: run_bridge_def)

lemma run_bridge_raised:
  "consume pid (events env) (bridge_setup pid env task_id workdir prompt r) = (r6, Some e) \<Longrightarrow>
     fst (run_bridge pid env task_id workdir prompt r)
       = step (append_log (''\<newline>[BRIDGE ERROR] '' @ exn_type e @ '': ''
                             @ exn_text e @ ''\<newline>''))
           (write_status pid (failed_at env) ''error'' (exn_type e @ '': '' @ exn_text e) r6)"
  by (simp add: run_bridge_def Let_def)

lemma whole_append_log:
  "artifacts_whole (now r) \<Longrightarrow> continues artifacts_whole r (step (append_log line) r)"
  by (rule whole_log) (simp_all add: append_log_def)

lemma run_bridge_whole:
  assumes "artifacts_whole (now r)"
  shows "continues artifacts_whole r (fst (run_bridge pid env task_id workdir prompt r))"
proof -
  have r5: "continues artifacts_whole r (bridge_setup pid env task_id workdir prompt r)"
    using assms by (rule bridge_setup_whole)
  then have now5: "artifacts_whole (now (bridge_setup pid env task_id workdir prompt r))"
    using assms by (rule continues_now)
  obtain r6 out where
    c: "consume pid (events env) (bridge_setup pid env task_id workdir prompt r) = (r6, out)"
    by (cases "consume pid (events env) (bridge_setup pid env task_id workdir prompt r)")
  have r6: "continues artifacts_whole (bridge_setup pid env task_id workdir prompt r) r6"
    using consume_whole [OF now5, of pid "events env"] c by simp
  then have now6: "artifacts_whole (now r6)" using now5 by (rule continues_now)
  have upto: "continues artifacts_whole r r6" using r5 r6 by (rule continues_trans)
  show ?thesis
  proof (cases out)
    case None
    with c have "fst (run_bridge pid env task_id workdir prompt r) = r6"
      by (simp add: run_bridge_ended)
    with upto show ?thesis by simp
  next
    case (Some e)
    have r7: "continues artifacts_whole r6
        (write_status pid (failed_at env) ''error'' (exn_type e @ '': '' @ exn_text e) r6)"
      using now6 by (rule whole_write_status)
    then have "artifacts_whole
        (now (write_status pid (failed_at env) ''error'' (exn_type e @ '': '' @ exn_text e) r6))"
      using now6 by (rule continues_now)
    then have r8: "continues artifacts_whole
        (write_status pid (failed_at env) ''error'' (exn_type e @ '': '' @ exn_text e) r6)
        (step (append_log (''\<newline>[BRIDGE ERROR] '' @ exn_type e @ '': ''
                             @ exn_text e @ ''\<newline>''))
           (write_status pid (failed_at env) ''error'' (exn_type e @ '': '' @ exn_text e) r6))"
      by (rule whole_append_log)
    from c Some have "fst (run_bridge pid env task_id workdir prompt r)
       = step (append_log (''\<newline>[BRIDGE ERROR] '' @ exn_type e @ '': ''
                             @ exn_text e @ ''\<newline>''))
           (write_status pid (failed_at env) ''error'' (exn_type e @ '': '' @ exn_text e) r6)"
      by (intro run_bridge_raised) simp
    moreover have "continues artifacts_whole r
        (step (append_log (''\<newline>[BRIDGE ERROR] '' @ exn_type e @ '': ''
                             @ exn_text e @ ''\<newline>''))
           (write_status pid (failed_at env) ''error'' (exn_type e @ '': '' @ exn_text e) r6))"
      using upto r7 r8 by (blast intro: continues_trans)
    ultimately show ?thesis by (simp only:)
  qed
qed

lemma whole_from_start:
  assumes "continues P (start s) r" and "P s"
  shows "list_all P (trace r)"
  using assms by (auto dest!: continuesD)

text \<open>
  Claim C8. Each of the status, question, task and result artifacts is written by
  \<^verbatim>\<open>write_json_atomic\<close> alone, which takes four states: while the temporary file is being
  written, and when it holds the complete text, the artifact is as it was; the rename
  then puts the complete text in its place. Hence, if none of the four artifacts is
  partly written when the bridge starts, none is in any state the task directory goes
  through in a run of \<^verbatim>\<open>run_bridge\<close> or of \<^verbatim>\<open>handle_ask_user_question\<close>.
\<close>

theorem atomic_artifact_writes:
  assumes "artifacts_whole s"
  shows "list_all artifacts_whole
           (trace (fst (run_bridge pid env task_id workdir prompt (start s))))
    \<and> list_all artifacts_whole
           (trace (fst (handle_ask_user_question pid' env' input_data (start s))))
    \<and> (\<forall>filepath\<in>set artifacts.
          with_suffix filepath ''.tmp'' \<noteq> filepath
        \<and> length (trace (write_json_atomic filepath data (start s))) = 4
        \<and> files (trace (write_json_atomic filepath data (start s)) ! 1) filepath
            = files s filepath
        \<and> files (trace (write_json_atomic filepath data (start s)) ! 2)
            (with_suffix filepath ''.tmp'') = Some (Json data)
        \<and> files (trace (write_json_atomic filepath data (start s)) ! 2) filepath
            = files s filepath
        \<and> files (trace (write_json_atomic filepath data (start s)) ! 3) filepath
            = Some (Json data))"
proof (intro conjI ballI)
  show "list_all artifacts_whole
          (trace (fst (run_bridge pid env task_id workdir prompt (start s))))"
    by (rule whole_from_start [OF run_bridge_whole]) (simp_all add: assms)
  show "list_all artifacts_whole
          (trace (fst (handle_ask_user_question pid' env' input_data (start s))))"
    by (rule whole_from_start [OF handle_whole]) (simp_all add: assms)
next
  fix filepath assume "filepath \<in> set artifacts"
  then have tmp: "with_suffix filepath ''.tmp'' \<noteq> filepath"
    using tmp_not_artifact [of filepath] by auto
  then show "with_suffix filepath ''.tmp'' \<noteq> filepath" .
  show "length (trace (write_json_atomic filepath data (start s))) = 4"
    by (simp add: trace_write_json_atomic)
  show "files (trace (write_json_atomic filepath data (start s)) ! 1) filepath = files s filepath"
    using tmp by (simp add: trace_write_json_atomic)
  show "files (trace (write_json_atomic filepath data (start s)) ! 2)
          (with_suffix filepath ''.tmp'') = Some (Json data)"
    by (simp add: trace_write_json_atomic)
  show "files (trace (write_json_atomic filepath data (start s)) ! 2) filepath = files s filepath"
    using tmp by (simp add: trace_write_json_atomic)
  show "files (trace (write_json_atomic filepath data (start s)) ! 3) filepath
          = Some (Json data)"
    by (simp add: trace_write_json_atomic files_write_json_atomic)
qed

theorem atomic_artifact_writes_witness:
  "artifacts_whole running_dir
   \<and> list_all artifacts_whole
       (trace (fst (handle_ask_user_question 4242 (session [idle, late])
                      (ask_input [asking ''Proceed?'' [''Yes'', ''No'']]) (start running_dir))))
   \<and> files (trace (write_json_atomic ''status.json''
                     (status_record 4242 ''2026-01-01T00:00:05'' ''complete''
                        ''Task finished successfully'') (start running_dir)) ! 2) ''status.json''
       = Some (Json (status_record 4242 ''2026-01-01T00:00:00'' ''running''
                       ''Claude Code session active''))
   \<and> files (trace (write_json_atomic ''status.json''
                     (status_record 4242 ''2026-01-01T00:00:05'' ''complete''
                        ''Task finished successfully'') (start running_dir)) ! 3) ''status.json''
       = Some (Json (status_record 4242 ''2026-01-01T00:00:05'' ''complete''
                       ''Task finished successfully''))"
proof -
  have whole: "artifacts_whole running_dir"
    by (simp add: artifacts_whole_def artifacts_def running_dir_def empty_dir_def)
  have status: "''status.json'' \<in> set artifacts"
    by (simp add: artifacts_def)
  have before: "files running_dir ''status.json''
      = Some (Json (status_record 4242 ''2026-01-01T00:00:00'' ''running''
                      ''Claude Code session active''))"
    by (simp add: running_dir_def)
  from atomic_artifact_writes [OF whole, of _ _ _ _ _ 4242 "session [idle, late]"
      "ask_input [asking ''Proceed?'' [''Yes'', ''No'']]"
      "status_record 4242 ''2026-01-01T00:00:05'' ''complete'' ''Task finished successfully''"]
    whole status before
  show ?thesis by auto
qed


end
